theory Spec2Isabelle
  imports Complex_Main
begin

section \<open>The retry decorator of \<open>src/scrapers/base_scraper.py\<close>\<close>

text \<open>
  Exceptions are values. An exception has a class, a message and, when it was raised with
  \<open>raise ... from e\<close>, a cause. The classes are the ones \<open>base_scraper.py\<close> names, with
  their Python base classes; \<open>superclasses\<close> is the method resolution order of each.
\<close>

datatype exc_class =
    BaseException
  | Exception
  | ScraperError
  | WebDriverException
  | NoSuchElementException
  | TimeoutException
  | CancelledError

datatype exn = Exn (cls: exc_class) (msg: string) (cause: "exn option")

fun superclasses :: "exc_class \<Rightarrow> exc_class list" where
  "superclasses BaseException = [BaseException]"
| "superclasses Exception = [Exception, BaseException]"
| "superclasses ScraperError = [ScraperError, Exception, BaseException]"
| "superclasses WebDriverException = [WebDriverException, Exception, BaseException]"
| "superclasses NoSuchElementException =
     [NoSuchElementException, WebDriverException, Exception, BaseException]"
| "superclasses TimeoutException =
     [TimeoutException, WebDriverException, Exception, BaseException]"
| "superclasses CancelledError = [CancelledError, BaseException]"

definition issubclass :: "exc_class \<Rightarrow> exc_class \<Rightarrow> bool" where
  "issubclass c d = (d \<in> set (superclasses c))"

text \<open>\<open>except exceptions as e\<close> catches \<open>e\<close> when it is an instance of a class of the tuple.\<close>

definition isinstance :: "exn \<Rightarrow> exc_class list \<Rightarrow> bool" where
  "isinstance e exceptions = (\<exists>c \<in> set exceptions. issubclass (cls e) c)"

text \<open>Python's \<open>str\<close> of an integer, for the f-string of the final message.\<close>

definition digit_char :: "nat \<Rightarrow> char" where
  "digit_char d = ''0123456789'' ! d"

function str_nat :: "nat \<Rightarrow> string" where
  "str_nat n = (if n < 10 then [digit_char n] else str_nat (n div 10) @ [digit_char (n mod 10)])"
  by pat_completeness auto
termination
  by (relation "measure (\<lambda>n. n)") auto

declare str_nat.simps [simp del]

definition str_int :: "int \<Rightarrow> string" where
  "str_int i = (if i < 0 then CHR ''-'' # str_nat (nat (- i)) else str_nat (nat i))"

definition exhausted_message :: "string \<Rightarrow> int \<Rightarrow> string" where
  "exhausted_message name max_attempts =
     ''Operation '' @ [CHR 0x27] @ name @ [CHR 0x27] @ '' failed after '' @
     str_int max_attempts @ '' attempts''"

text \<open>
  What the wrapper does, in order: each \<open>await func(*args, **kwargs)\<close>, each log record and
  each \<open>await asyncio.sleep(delay)\<close>.
\<close>

datatype aevent =
    Await nat
  | LogAttemptFailed nat string exn
  | LogAllFailed int string
  | AsyncSleep real

text \<open>
  The wrapped coroutine is called with the same arguments each time, so it is given by its
  name and by the outcome of its \<open>k\<close>-th call (counted from 0): \<open>Inl e\<close> when it raises
  \<open>e\<close>, \<open>Inr v\<close> when it returns \<open>v\<close>. The loop leaves at every outcome but a caught
  exception, which adds one to \<open>attempt\<close>: the call made with \<open>attempt = k\<close> is the
  \<open>k\<close>-th one.

  The wrapper's result is \<open>Inl e\<close> when \<open>e\<close> leaves it, \<open>Inr (Some v)\<close> for
  \<open>return await func(...)\<close>, and \<open>Inr None\<close> when the \<open>while\<close> ends without a
  \<open>return\<close> (the coroutine then returns Python's \<open>None\<close>).
\<close>

function wrapper_loop ::
  "int \<Rightarrow> real \<Rightarrow> exc_class list \<Rightarrow> string \<Rightarrow> (nat \<Rightarrow> exn + 'a) \<Rightarrow> nat
     \<Rightarrow> (exn + 'a option) \<times> aevent list" where
  "wrapper_loop max_attempts delay exceptions name func attempt =
     (if int attempt < max_attempts then
        (case func attempt of
           Inr v \<Rightarrow> (Inr (Some v), [Await attempt])
         | Inl e \<Rightarrow>
             if isinstance e exceptions then
               (let attempt' = Suc attempt;
                    evs = [Await attempt, LogAttemptFailed attempt' name e]
                in if int attempt' \<ge> max_attempts then
                     (Inl (Exn ScraperError (exhausted_message name max_attempts) (Some e)),
                      evs @ [LogAllFailed max_attempts name])
                   else
                     (case wrapper_loop max_attempts delay exceptions name func attempt' of
                        (r, evs') \<Rightarrow> (r, evs @ [AsyncSleep delay] @ evs')))
             else (Inl e, [Await attempt]))
      else (Inr None, []))"
  by pat_completeness auto
termination
  by (relation "measure (\<lambda>(m, d, E, n, f, a). nat (m - int a))") auto

declare wrapper_loop.simps [simp del]

definition async_retry ::
  "int \<Rightarrow> real \<Rightarrow> exc_class list \<Rightarrow> string \<Rightarrow> (nat \<Rightarrow> exn + 'a)
     \<Rightarrow> (exn + 'a option) \<times> aevent list" where
  "async_retry max_attempts delay exceptions name func =
     wrapper_loop max_attempts delay exceptions name func 0"

text \<open>Observations of a wrapper trace.\<close>

fun is_await :: "aevent \<Rightarrow> bool" where
  "is_await (Await k) = True"
| "is_await _ = False"

fun sleep_of :: "aevent \<Rightarrow> real option" where
  "sleep_of (AsyncSleep d) = Some d"
| "sleep_of _ = None"

fun is_attempt_log :: "aevent \<Rightarrow> bool" where
  "is_attempt_log (LogAttemptFailed k n e) = True"
| "is_attempt_log _ = False"

definition invocations :: "aevent list \<Rightarrow> nat" where
  "invocations evs = length (filter is_await evs)"

definition delays :: "aevent list \<Rightarrow> real list" where
  "delays evs = List.map_filter sleep_of evs"

definition attempts_consumed :: "aevent list \<Rightarrow> nat" where
  "attempts_consumed evs = length (filter is_attempt_log evs)"


section \<open>The worker of \<open>src/excel_sync.py\<close>\<close>

subsection \<open>Configuration\<close>

text \<open>
  The three settings of \<open>settings.py\<close> the worker reads, and the fields
  \<open>__init__\<close> stores; \<open>__init__\<close> checks none of them. Durations are in seconds.
\<close>

definition SYNC_MAX_RETRIES :: int where
  "SYNC_MAX_RETRIES = 5"

definition SYNC_RETRY_DELAY :: real where
  "SYNC_RETRY_DELAY = 2"

definition REFRESH_INTERVAL :: real where
  "REFRESH_INTERVAL = 5"

type_synonym path = string

record processor =
  file_paths :: "path list"
  max_retries :: int
  retry_delay :: real
  refresh_interval :: real

definition SynchronizedExcelProcessor :: "path list \<Rightarrow> int \<Rightarrow> real \<Rightarrow> real \<Rightarrow> processor" where
  "SynchronizedExcelProcessor fps mr rd ri =
     \<lparr>file_paths = fps, max_retries = mr, retry_delay = rd, refresh_interval = ri\<rparr>"

subsection \<open>The world the worker drives\<close>

text \<open>
  An application handle is identified by the number of the \<open>DispatchEx\<close> call that
  returned it. A workbook handle is identified by the position \<open>i\<close> of its file in the
  list and the value \<open>k\<close> of \<open>retries\<close> when it was opened: each pass through the
  \<open>try\<close> block opens at most one.
\<close>

type_synonym app = nat

datatype com_call = Open | RefreshAll | Save | Close

datatype severity = Debug | Info | Warning | Error

text \<open>The log records of \<open>_run\<close> and \<open>_create_excel_app\<close>, one constructor for each
  message, with the values the message is formatted with.\<close>

datatype message =
    ComInitialized
  | StartingApp
  | Stopped
  | FileMissing path
  | SyncStart path
  | RunRefreshAll
  | SyncDone path
  | SyncFailed path nat
  | SyncExhausted path int
  | AppQuit
  | AppQuitFailed
  | Retrying path
  | AppQuitFinal
  | Unexpected
  | ComUninitialized

text \<open>
  Every call the worker makes on the outside world is an event; the flag of an event says
  whether the call returned (\<open>True\<close>) or raised (\<open>False\<close>), or is the value it gave.
\<close>

datatype event =
    CoInitialize
  | CoUninitialize
  | DispatchEx app bool
  | IsSet nat bool
  | PathExists nat path bool
  | WorkbooksOpen nat nat app path bool
  | WbRefreshAll nat nat bool
  | WbSave nat nat bool
  | WbClose nat nat bool
  | Sleep real
  | SleepRaised real
  | Quit app bool
  | Log severity message

text \<open>
  The outside world answers each call:
  \<^item> \<open>path_exists\<close> is \<open>os.path.exists\<close>;
  \<^item> \<open>stop_called env i\<close> says that another thread has called \<open>stop()\<close> by the time the
  \<open>for\<close> loop tests the event for the file at position \<open>i\<close>;
  \<^item> \<open>raises env i k c\<close> says that the COM call \<open>c\<close> raises in the pass of the
  \<open>try\<close> block made for file \<open>i\<close> with \<open>retries = k\<close>;
  \<^item> \<open>dispatch_ok env a\<close> says that the \<open>a\<close>-th run of \<open>_create_excel_app\<close> returns a
  handle (it raises otherwise);
  \<^item> \<open>quit_ok env a\<close> says that \<open>Quit\<close> on handle \<open>a\<close> returns (it raises otherwise).
\<close>

record env =
  path_exists :: "path \<Rightarrow> bool"
  stop_called :: "nat \<Rightarrow> bool"
  raises :: "nat \<Rightarrow> nat \<Rightarrow> com_call \<Rightarrow> bool"
  dispatch_ok :: "app \<Rightarrow> bool"
  quit_ok :: "app \<Rightarrow> bool"

text \<open>
  The worker's own state: the local variable \<open>excel\<close>, the number of \<open>DispatchEx\<close>
  calls made so far, and \<open>self.stop_event\<close>.
\<close>

record wstate =
  excel :: app
  dispatched :: nat
  stop_event :: bool

definition init_state :: wstate where
  "init_state = \<lparr>excel = 0, dispatched = 0, stop_event = False\<rparr>"

subsection \<open>The methods\<close>

text \<open>
  \<open>stop\<close> sets the event; the join that follows waits for the thread and touches no
  state of the worker. \<open>observe\<close> is the effect on the worker of the \<open>stop()\<close> calls made by
  other threads before its next test of the event. No method clears the event.
\<close>

definition stop :: "wstate \<Rightarrow> wstate" where
  "stop st = st\<lparr>stop_event := True\<rparr>"

definition observe :: "env \<Rightarrow> nat \<Rightarrow> wstate \<Rightarrow> wstate" where
  "observe env i st = (if stop_called env i then stop st else st)"

text \<open>
  \<open>time.sleep\<close> raises \<open>ValueError\<close> for a negative duration and returns after
  any other. The sleep of line 87 is given \<open>settings.REFRESH_INTERVAL\<close>, which is 5, and
  returns; the sleep of line 111 is given \<open>self.retry_delay\<close>, which can be negative.
\<close>

definition time_sleep :: "real \<Rightarrow> bool \<times> event list" where
  "time_sleep d = (if d < 0 then (False, [SleepRaised d]) else (True, [Sleep d]))"

text \<open>
  \<open>_create_excel_app\<close>: \<open>None\<close> when it raises, the new handle otherwise. It is one
  step: \<open>DispatchEx\<close> and the two assignments that follow it give a handle together or
  raise together.
\<close>

definition create_excel_app :: "env \<Rightarrow> wstate \<Rightarrow> app option \<times> wstate \<times> event list" where
  "create_excel_app env st =
     (let a = dispatched st; st' = st\<lparr>dispatched := Suc a\<rparr>
      in if dispatch_ok env a
         then (Some a, st', [Log Info StartingApp, DispatchEx a True])
         else (None, st', [Log Info StartingApp, DispatchEx a False]))"

text \<open>
  \<open>excel.Quit()\<close> inside its own \<open>try\<close>: the exception is logged and goes no further
  (lines 101 to 105, and 114 to 118 with the other message).
\<close>

definition quit_excel :: "env \<Rightarrow> app \<Rightarrow> message \<Rightarrow> event list" where
  "quit_excel env a done =
     (if quit_ok env a then [Quit a True, Log Info done]
      else [Quit a False, Log Warning AppQuitFailed])"

text \<open>
  The \<open>try\<close> block of lines 78 to 93: \<open>True\<close> when it reaches \<open>break\<close>, \<open>False\<close>
  when one of its calls raises and control goes to \<open>except Exception\<close>.
\<close>

definition try_body :: "env \<Rightarrow> nat \<Rightarrow> nat \<Rightarrow> path \<Rightarrow> app \<Rightarrow> bool \<times> event list" where
  "try_body env i k fp a =
     (if raises env i k Open then (False, [WorkbooksOpen i k a fp False])
      else if raises env i k RefreshAll then
        (False, [WorkbooksOpen i k a fp True, Log Debug RunRefreshAll, WbRefreshAll i k False])
      else if raises env i k Save then
        (False, [WorkbooksOpen i k a fp True, Log Debug RunRefreshAll, WbRefreshAll i k True,
                 Sleep REFRESH_INTERVAL, WbSave i k False])
      else if raises env i k Close then
        (False, [WorkbooksOpen i k a fp True, Log Debug RunRefreshAll, WbRefreshAll i k True,
                 Sleep REFRESH_INTERVAL, WbSave i k True, WbClose i k False])
      else
        (True, [WorkbooksOpen i k a fp True, Log Debug RunRefreshAll, WbRefreshAll i k True,
                Sleep REFRESH_INTERVAL, WbSave i k True, WbClose i k True,
                Log Info (SyncDone fp)]))"

text \<open>
  The \<open>while\<close> loop of lines 77 to 111. The flag of the result is \<open>False\<close> when an
  exception leaves the loop: the handler of lines 95 to 111 has no \<open>try\<close> around
  \<open>_create_excel_app\<close> (line 108) nor around \<open>time.sleep\<close> (line 111), so what either
  raises goes to the outer \<open>except\<close> of \<open>_run\<close>.
\<close>

function while_retries ::
  "env \<Rightarrow> processor \<Rightarrow> nat \<Rightarrow> path \<Rightarrow> nat \<Rightarrow> wstate \<Rightarrow> bool \<times> wstate \<times> event list" where
  "while_retries env p i fp retries st =
     (if int retries < max_retries p then
        (case try_body env i retries fp (excel st) of
           (True, evs) \<Rightarrow> (True, st, evs)
         | (False, evs) \<Rightarrow>
             (let retries' = Suc retries;
                  evs1 = evs @ [Log Error (SyncFailed fp retries')]
              in if int retries' \<ge> max_retries p then
                   (let evs2 = evs1 @ [Log Error (SyncExhausted fp (max_retries p))]
                                @ quit_excel env (excel st) AppQuit
                    in case create_excel_app env st of
                         (None, st', evs3) \<Rightarrow> (False, st', evs2 @ evs3)
                       | (Some a, st', evs3) \<Rightarrow>
                           (case while_retries env p i fp retries' (st'\<lparr>excel := a\<rparr>) of
                              (ok, st'', evs4) \<Rightarrow> (ok, st'', evs2 @ evs3 @ evs4)))
                 else
                   (case time_sleep (retry_delay p) of
                      (False, evs3) \<Rightarrow> (False, st, evs1 @ [Log Info (Retrying fp)] @ evs3)
                    | (True, evs3) \<Rightarrow>
                        (case while_retries env p i fp retries' st of
                           (ok, st'', evs4) \<Rightarrow>
                             (ok, st'', evs1 @ [Log Info (Retrying fp)] @ evs3 @ evs4)))))
      else (True, st, []))"
  by pat_completeness auto
termination
  by (relation "measure (\<lambda>(env, p, i, fp, retries, st). nat (max_retries p - int retries))") auto

declare while_retries.simps [simp del]

text \<open>The \<open>for\<close> loop of lines 63 to 111, from the file at position \<open>i\<close> on.\<close>

fun for_files ::
  "env \<Rightarrow> processor \<Rightarrow> nat \<Rightarrow> path list \<Rightarrow> wstate \<Rightarrow> bool \<times> wstate \<times> event list" where
  "for_files env p i [] st = (True, st, [])"
| "for_files env p i (fp # rest) st =
     (let st0 = observe env i st
      in if stop_event st0 then (True, st0, [IsSet i True, Log Info Stopped])
         else if \<not> path_exists env fp then
           (case for_files env p (Suc i) rest st0 of
              (ok, st', evs) \<Rightarrow>
                (ok, st', [IsSet i False, PathExists i fp False, Log Warning (FileMissing fp)]
                           @ evs))
         else
           (case while_retries env p i fp 0 st0 of
              (False, st1, evs1) \<Rightarrow>
                (False, st1, [IsSet i False, PathExists i fp True, Log Info (SyncStart fp)] @ evs1)
            | (True, st1, evs1) \<Rightarrow>
                (case for_files env p (Suc i) rest st1 of
                   (ok, st', evs) \<Rightarrow>
                     (ok, st', [IsSet i False, PathExists i fp True, Log Info (SyncStart fp)]
                                @ evs1 @ evs))))"

text \<open>
  \<open>_run\<close>: the final state and everything the run did, in order. An exception that
  leaves the loop, or the first \<open>_create_excel_app\<close>, is logged by the outer
  \<open>except Exception\<close>, and the \<open>Quit\<close> of lines 114 to 118 is then not reached;
  \<open>finally\<close> runs on every path. \<open>CoInitialize\<close> and
  \<open>CoUninitialize\<close> are taken to return.
\<close>

definition run :: "env \<Rightarrow> processor \<Rightarrow> wstate \<times> event list" where
  "run env p =
     (let pre = [CoInitialize, Log Debug ComInitialized];
          fin = [CoUninitialize, Log Debug ComUninitialized]
      in case create_excel_app env init_state of
           (None, st, evs) \<Rightarrow> (st, pre @ evs @ [Log Error Unexpected] @ fin)
         | (Some a, st, evs) \<Rightarrow>
             (case for_files env p 0 (file_paths p) (st\<lparr>excel := a\<rparr>) of
                (False, st', evs') \<Rightarrow> (st', pre @ evs @ evs' @ [Log Error Unexpected] @ fin)
              | (True, st', evs') \<Rightarrow>
                  (st', pre @ evs @ evs' @ quit_excel env (excel st') AppQuitFinal @ fin)))"

subsection \<open>Reading a trace\<close>







text \<open>Positions of the files on which a call was made, in the order of the calls.\<close>

fun exists_path :: "event \<Rightarrow> path option" where
  "exists_path (PathExists i fp b) = Some fp"
| "exists_path e = None"

fun open_path :: "event \<Rightarrow> path option" where
  "open_path (WorkbooksOpen i k a fp ok) = Some fp"
| "open_path e = None"

fun exists_idx :: "event \<Rightarrow> nat option" where
  "exists_idx (PathExists i fp b) = Some i"
| "exists_idx e = None"

fun open_idx :: "event \<Rightarrow> nat option" where
  "open_idx (WorkbooksOpen i k a fp ok) = Some i"
| "open_idx e = None"

fun refresh_idx :: "event \<Rightarrow> nat option" where
  "refresh_idx (WbRefreshAll i k ok) = Some i"
| "refresh_idx e = None"

fun isset_idx :: "event \<Rightarrow> nat option" where
  "isset_idx (IsSet i b) = Some i"
| "isset_idx e = None"

fun quit_app :: "event \<Rightarrow> app option" where
  "quit_app (Quit a ok) = Some a"
| "quit_app e = None"

fun dispatch_call :: "event \<Rightarrow> (app \<times> bool) option" where
  "dispatch_call (DispatchEx a ok) = Some (a, ok)"
| "dispatch_call e = None"

fun missing_log :: "event \<Rightarrow> path option" where
  "missing_log (Log Warning (FileMissing fp)) = Some fp"
| "missing_log e = None"

fun is_error_log :: "event \<Rightarrow> bool" where
  "is_error_log (Log Error m) = True"
| "is_error_log e = False"

fun sleep_dur :: "event \<Rightarrow> real option" where
  "sleep_dur (Sleep d) = Some d"
| "sleep_dur e = None"

definition checked_paths :: "event list \<Rightarrow> path list" where
  "checked_paths evs = List.map_filter exists_path evs"

definition opened_paths :: "event list \<Rightarrow> path list" where
  "opened_paths evs = List.map_filter open_path evs"

definition exists_checks :: "event list \<Rightarrow> nat list" where
  "exists_checks evs = List.map_filter exists_idx evs"

definition opens :: "event list \<Rightarrow> nat list" where
  "opens evs = List.map_filter open_idx evs"

definition refreshes :: "event list \<Rightarrow> nat list" where
  "refreshes evs = List.map_filter refresh_idx evs"

definition begun :: "event list \<Rightarrow> nat list" where
  "begun evs = List.map_filter isset_idx evs"

definition teardowns :: "event list \<Rightarrow> app list" where
  "teardowns evs = List.map_filter quit_app evs"

definition constructions :: "event list \<Rightarrow> (app \<times> bool) list" where
  "constructions evs = List.map_filter dispatch_call evs"

definition missing_logged :: "event list \<Rightarrow> path list" where
  "missing_logged evs = List.map_filter missing_log evs"

definition error_logs :: "event list \<Rightarrow> event list" where
  "error_logs evs = filter is_error_log evs"

definition sleeps :: "event list \<Rightarrow> real list" where
  "sleeps evs = List.map_filter sleep_dur evs"



text \<open>
  The wait that follows each \<open>RefreshAll\<close> that returned: the duration of the
  \<open>time.sleep\<close> made right after it, \<open>None\<close> when the next call is not a sleep.
\<close>

fun is_refreshed :: "event \<Rightarrow> bool" where
  "is_refreshed (WbRefreshAll i k True) = True"
| "is_refreshed e = False"

fun next_sleep :: "event list \<Rightarrow> real option" where
  "next_sleep (Sleep d # es) = Some d"
| "next_sleep es = None"

fun waits_after_refresh :: "event list \<Rightarrow> real option list" where
  "waits_after_refresh [] = []"
| "waits_after_refresh (e # es) =
     (if is_refreshed e then next_sleep es # waits_after_refresh es
      else waits_after_refresh es)"




text \<open>
  A trace is settled when it does not end on a \<open>RefreshAll\<close> that returned (whose wait
  would still be to come); its waits are right when it is settled and every wait after a
  refresh lasts \<open>settings.REFRESH_INTERVAL\<close>.
\<close>

definition settled :: "event list \<Rightarrow> bool" where
  "settled evs = (evs = [] \<or> \<not> is_refreshed (last evs))"

definition waits_ok :: "event list \<Rightarrow> bool" where
  "waits_ok evs = (settled evs \<and> (\<forall>w \<in> set (waits_after_refresh evs). w = Some REFRESH_INTERVAL))"

section \<open>Concrete inputs\<close>

text \<open>Three coroutines: one that fails twice and then returns, one that always times out,
  one that is cancelled on its second call.\<close>

definition flaky :: "nat \<Rightarrow> exn + nat" where
  "flaky k = (if k < 2 then Inl (Exn WebDriverException ''session lost'' None) else Inr 42)"

definition broken :: "nat \<Rightarrow> exn + nat" where
  "broken k = Inl (Exn TimeoutException (''timeout '' @ str_nat k) None)"

definition cancelled :: "nat \<Rightarrow> exn + nat" where
  "cancelled k = (if k < 1 then Inl (Exn WebDriverException ''session lost'' None)
                  else Inl (Exn CancelledError ''cancelled'' None))"

text \<open>
  Two worlds in which every file exists, nobody calls \<open>stop()\<close> and every
  \<open>DispatchEx\<close> and \<open>Quit\<close> returns: in \<open>env_leak\<close> the first \<open>RefreshAll\<close> on
  the first file raises, in \<open>env_exhaust\<close> every \<open>RefreshAll\<close> on the first file raises.
  The processor has two files and two retries.
\<close>

definition env_leak :: env where
  "env_leak = \<lparr>path_exists = (\<lambda>fp. True), stop_called = (\<lambda>i. False),
     raises = (\<lambda>i k c. i = 0 \<and> k = 0 \<and> c = RefreshAll),
     dispatch_ok = (\<lambda>a. True), quit_ok = (\<lambda>a. True)\<rparr>"


definition two_files :: processor where
  "two_files = SynchronizedExcelProcessor [''a.xlsx'', ''b.xlsx''] 2 SYNC_RETRY_DELAY REFRESH_INTERVAL"



definition entered :: wstate where
  "entered = \<lparr>excel = 0, dispatched = 1, stop_event = False\<rparr>"


definition env_stop :: env where
  "env_stop = \<lparr>path_exists = (\<lambda>fp. True), stop_called = (\<lambda>i. i = 1),
     raises = (\<lambda>i k c. False), dispatch_ok = (\<lambda>a. True), quit_ok = (\<lambda>a. True)\<rparr>"


definition three_files :: processor where
  "three_files = SynchronizedExcelProcessor [''a.xlsx'', ''b.xlsx'', ''c.xlsx'']
     SYNC_MAX_RETRIES SYNC_RETRY_DELAY REFRESH_INTERVAL"


section \<open>Properties of the retry decorator\<close>

lemma wrapper_loop_stop: "\<not> int a < m \<Longrightarrow> wrapper_loop m d E nm f a = (Inr None, [])"
  by (simp add: wrapper_loop.simps)

lemma wrapper_loop_return:
  "int a < m \<Longrightarrow> f a = Inr v \<Longrightarrow> wrapper_loop m d E nm f a = (Inr (Some v), [Await a])"
  by (simp add: wrapper_loop.simps)

lemma wrapper_loop_propagate:
  "int a < m \<Longrightarrow> f a = Inl e \<Longrightarrow> \<not> isinstance e E \<Longrightarrow>
   wrapper_loop m d E nm f a = (Inl e, [Await a])"
  by (simp add: wrapper_loop.simps)

lemma wrapper_loop_exhausted:
  "int a < m \<Longrightarrow> f a = Inl e \<Longrightarrow> isinstance e E \<Longrightarrow> m \<le> int (Suc a) \<Longrightarrow>
   wrapper_loop m d E nm f a =
     (Inl (Exn ScraperError (exhausted_message nm m) (Some e)),
      [Await a, LogAttemptFailed (Suc a) nm e, LogAllFailed m nm])"
  by (subst wrapper_loop.simps) (simp add: Let_def)

lemma wrapper_loop_retry:
  "int a < m \<Longrightarrow> f a = Inl e \<Longrightarrow> isinstance e E \<Longrightarrow> int (Suc a) < m \<Longrightarrow>
   wrapper_loop m d E nm f a =
     (fst (wrapper_loop m d E nm f (Suc a)),
      [Await a, LogAttemptFailed (Suc a) nm e, AsyncSleep d]
      @ snd (wrapper_loop m d E nm f (Suc a)))"
  by (subst wrapper_loop.simps) (simp add: Let_def split: prod.splits)

lemma wrapper_loop_nonretryable:
  "int k < m \<Longrightarrow> a \<le> k \<Longrightarrow>
   (\<forall>j. a \<le> j \<and> j < k \<longrightarrow> (\<exists>e'. f j = Inl e' \<and> isinstance e' E)) \<Longrightarrow>
   f k = Inl e \<Longrightarrow> \<not> isinstance e E \<Longrightarrow>
   fst (wrapper_loop m d E nm f a) = Inl e
   \<and> invocations (snd (wrapper_loop m d E nm f a)) = Suc (k - a)
   \<and> delays (snd (wrapper_loop m d E nm f a)) = replicate (k - a) d
   \<and> attempts_consumed (snd (wrapper_loop m d E nm f a)) = k - a"
proof (induction "k - a" arbitrary: a)
  case 0
  then have "a = k" by simp
  with 0 show ?case
    by (simp add: wrapper_loop_propagate invocations_def delays_def attempts_consumed_def)
next
  case (Suc n)
  then have lt: "a < k" by simp
  with Suc.prems obtain e' where e': "f a = Inl e'" "isinstance e' E" by auto
  have am: "int a < m" "int (Suc a) < m" using lt Suc.prems(1) by simp_all
  have ih: "fst (wrapper_loop m d E nm f (Suc a)) = Inl e
   \<and> invocations (snd (wrapper_loop m d E nm f (Suc a))) = Suc (k - Suc a)
   \<and> delays (snd (wrapper_loop m d E nm f (Suc a))) = replicate (k - Suc a) d
   \<and> attempts_consumed (snd (wrapper_loop m d E nm f (Suc a))) = k - Suc a"
    using Suc.hyps(2) lt Suc.prems by (intro Suc.hyps(1)) auto
  have k: "k - a = Suc (k - Suc a)" using lt by simp
  show ?case
    using ih
    by (simp add: wrapper_loop_retry [where f = f and a = a and m = m and E = E, OF am(1) e' am(2)]
        k invocations_def delays_def attempts_consumed_def)
qed

section \<open>Properties of the worker\<close>

subsection \<open>Unfolding the retries\<close>

lemma while_retries_unfold:
  "while_retries env p i fp r st =
     (if \<not> int r < max_retries p then (True, st, [])
      else if fst (try_body env i r fp (excel st)) then
        (True, st, snd (try_body env i r fp (excel st)))
      else if int (Suc r) < max_retries p then
        (if retry_delay p < 0 then
           (False, st, snd (try_body env i r fp (excel st))
                       @ [Log Error (SyncFailed fp (Suc r)), Log Info (Retrying fp),
                          SleepRaised (retry_delay p)])
         else
           (case while_retries env p i fp (Suc r) st of
              (ok, st'', evs4) \<Rightarrow>
                (ok, st'', snd (try_body env i r fp (excel st))
                           @ [Log Error (SyncFailed fp (Suc r)), Log Info (Retrying fp),
                              Sleep (retry_delay p)] @ evs4)))
      else if dispatch_ok env (dispatched st) then
        (True, st\<lparr>dispatched := Suc (dispatched st), excel := dispatched st\<rparr>,
         snd (try_body env i r fp (excel st))
         @ [Log Error (SyncFailed fp (Suc r)), Log Error (SyncExhausted fp (max_retries p))]
         @ quit_excel env (excel st) AppQuit
         @ [Log Info StartingApp, DispatchEx (dispatched st) True])
      else
        (False, st\<lparr>dispatched := Suc (dispatched st)\<rparr>,
         snd (try_body env i r fp (excel st))
         @ [Log Error (SyncFailed fp (Suc r)), Log Error (SyncExhausted fp (max_retries p))]
         @ quit_excel env (excel st) AppQuit
         @ [Log Info StartingApp, DispatchEx (dispatched st) False]))"
  apply (subst while_retries.simps)
  apply (cases "try_body env i r fp (excel st)")
  apply (simp add: Let_def create_excel_app_def time_sleep_def split: prod.splits bool.splits)
  apply (subst while_retries.simps)
  apply simp
  done


subsection \<open>Handles\<close>









subsection \<open>Two runs, step by step\<close>

lemmas run_simps =
  run_def create_excel_app_def init_state_def quit_excel_def try_body_def observe_def stop_def
  while_retries_unfold Let_def SynchronizedExcelProcessor_def SYNC_RETRY_DELAY_def
  REFRESH_INTERVAL_def

lemma run_leak:
  "snd (run env_leak two_files) =
    [CoInitialize, Log Debug ComInitialized, Log Info StartingApp,
     DispatchEx 0 True, IsSet 0 False, PathExists 0 ''a.xlsx'' True,
     Log Info (SyncStart ''a.xlsx''), WorkbooksOpen 0 0 0 ''a.xlsx'' True,
     Log Debug RunRefreshAll, WbRefreshAll 0 0 False,
     Log Error (SyncFailed ''a.xlsx'' 1), Log Info (Retrying ''a.xlsx''), Sleep 2,
     WorkbooksOpen 0 1 0 ''a.xlsx'' True, Log Debug RunRefreshAll,
     WbRefreshAll 0 1 True, Sleep 5, WbSave 0 1 True, WbClose 0 1 True,
     Log Info (SyncDone ''a.xlsx''), IsSet 1 False, PathExists 1 ''b.xlsx'' True,
     Log Info (SyncStart ''b.xlsx''), WorkbooksOpen 1 0 0 ''b.xlsx'' True,
     Log Debug RunRefreshAll, WbRefreshAll 1 0 True, Sleep 5, WbSave 1 0 True,
     WbClose 1 0 True, Log Info (SyncDone ''b.xlsx''), Quit 0 True,
     Log Info AppQuitFinal, CoUninitialize, Log Debug ComUninitialized]"
  by (simp add: run_simps env_leak_def two_files_def)



subsection \<open>Observations of the iteration\<close>

lemma map_filter_append [simp]:
  "List.map_filter f (xs @ ys) = List.map_filter f xs @ List.map_filter f ys"
  by (simp add: List.map_filter_def)

lemmas obs_defs =
  checked_paths_def opened_paths_def exists_checks_def opens_def refreshes_def begun_def
  teardowns_def constructions_def missing_logged_def error_logs_def sleeps_def

lemma obs_append:
  "checked_paths (xs @ ys) = checked_paths xs @ checked_paths ys"
  "opened_paths (xs @ ys) = opened_paths xs @ opened_paths ys"
  "exists_checks (xs @ ys) = exists_checks xs @ exists_checks ys"
  "opens (xs @ ys) = opens xs @ opens ys"
  "refreshes (xs @ ys) = refreshes xs @ refreshes ys"
  "begun (xs @ ys) = begun xs @ begun ys"
  "teardowns (xs @ ys) = teardowns xs @ teardowns ys"
  "constructions (xs @ ys) = constructions xs @ constructions ys"
  "missing_logged (xs @ ys) = missing_logged xs @ missing_logged ys"
  "error_logs (xs @ ys) = error_logs xs @ error_logs ys"
  "sleeps (xs @ ys) = sleeps xs @ sleeps ys"
  by (simp_all add: obs_defs)

lemma obs_Nil:
  "checked_paths [] = []"
  "opened_paths [] = []"
  "exists_checks [] = []"
  "opens [] = []"
  "refreshes [] = []"
  "begun [] = []"
  "teardowns [] = []"
  "constructions [] = []"
  "missing_logged [] = []"
  "error_logs [] = []"
  "sleeps [] = []"
  by (simp_all add: obs_defs)

lemma obs_Cons:
  "checked_paths (e # es) = (case exists_path e of None \<Rightarrow> checked_paths es | Some x \<Rightarrow> x # checked_paths es)"
  "opened_paths (e # es) = (case open_path e of None \<Rightarrow> opened_paths es | Some x \<Rightarrow> x # opened_paths es)"
  "exists_checks (e # es) = (case exists_idx e of None \<Rightarrow> exists_checks es | Some x \<Rightarrow> x # exists_checks es)"
  "opens (e # es) = (case open_idx e of None \<Rightarrow> opens es | Some x \<Rightarrow> x # opens es)"
  "refreshes (e # es) = (case refresh_idx e of None \<Rightarrow> refreshes es | Some x \<Rightarrow> x # refreshes es)"
  "begun (e # es) = (case isset_idx e of None \<Rightarrow> begun es | Some x \<Rightarrow> x # begun es)"
  "teardowns (e # es) = (case quit_app e of None \<Rightarrow> teardowns es | Some x \<Rightarrow> x # teardowns es)"
  "constructions (e # es) = (case dispatch_call e of None \<Rightarrow> constructions es | Some x \<Rightarrow> x # constructions es)"
  "missing_logged (e # es) = (case missing_log e of None \<Rightarrow> missing_logged es | Some x \<Rightarrow> x # missing_logged es)"
  "sleeps (e # es) = (case sleep_dur e of None \<Rightarrow> sleeps es | Some x \<Rightarrow> x # sleeps es)"
  "error_logs (e # es) = (if is_error_log e then e # error_logs es else error_logs es)"
  by (simp_all add: obs_defs split: option.splits)

lemmas obs_simps = obs_append obs_Nil obs_Cons

lemma try_body_obs:
  "opens (snd (try_body env i k fp a)) = [i]"
  "opened_paths (snd (try_body env i k fp a)) = [fp]"
  "refreshes (snd (try_body env i k fp a)) = (if raises env i k Open then [] else [i])"
  "teardowns (snd (try_body env i k fp a)) = []"
  "constructions (snd (try_body env i k fp a)) = []"
  "exists_checks (snd (try_body env i k fp a)) = []"
  "checked_paths (snd (try_body env i k fp a)) = []"
  "begun (snd (try_body env i k fp a)) = []"
  "missing_logged (snd (try_body env i k fp a)) = []"
  "error_logs (snd (try_body env i k fp a)) = []"
  by (simp_all add: try_body_def obs_defs)

lemma quit_excel_obs:
  "opens (quit_excel env a m) = []"
  "opened_paths (quit_excel env a m) = []"
  "refreshes (quit_excel env a m) = []"
  "teardowns (quit_excel env a m) = [a]"
  "constructions (quit_excel env a m) = []"
  "exists_checks (quit_excel env a m) = []"
  "checked_paths (quit_excel env a m) = []"
  "begun (quit_excel env a m) = []"
  "missing_logged (quit_excel env a m) = []"
  "error_logs (quit_excel env a m) = []"
  by (simp_all add: quit_excel_def obs_defs)






lemma while_retries_obs:
  "while_retries env p i fp r st = (ok, st', evs) \<Longrightarrow>
   stop_event st' = stop_event st
   \<and> begun evs = [] \<and> exists_checks evs = [] \<and> checked_paths evs = []
   \<and> missing_logged evs = []
   \<and> set (opens evs) \<subseteq> {i}
   \<and> (int r < max_retries p \<longrightarrow> i \<in> set (opens evs))
   \<and> ((\<forall>a. dispatch_ok env a) \<and> (0 \<le> retry_delay p \<or> max_retries p \<le> 1) \<longrightarrow> ok)
   \<and> (ok \<longrightarrow> Log Error Unexpected \<notin> set evs)"
proof (induction "nat (max_retries p - int r)" arbitrary: r st ok st' evs)
  case 0
  then have "while_retries env p i fp r st = (True, st, [])"
    by (subst while_retries_unfold) simp
  with 0 show ?case by (auto simp: obs_simps)
next
  case (Suc n)
  have n: "n = nat (max_retries p - int (Suc r))" using Suc.hyps(2) by simp
  note ih = Suc.hyps(1) [OF n]
  show ?case
    using Suc.prems [unfolded while_retries_unfold [of env p i fp r st]]
    by (auto simp: obs_simps try_body_obs quit_excel_obs try_body_def quit_excel_def
        split: if_splits prod.splits dest!: ih)
qed



lemma for_files_stop_split:
  assumes "j < length fps" and "\<not> stop_event st"
    and "\<forall>j'<j. \<not> stop_called env (i + j')" and "stop_called env (i + j)"
  shows "for_files env p i fps st =
    (case for_files env p i (take j fps) st of
       (False, st', evs) \<Rightarrow> (False, st', evs)
     | (True, st', evs) \<Rightarrow> (True, stop st', evs @ [IsSet (i + j) True, Log Info Stopped]))"
  using assms
proof (induction fps arbitrary: i j st)
  case Nil
  then show ?case by simp
next
  case (Cons fp rest)
  show ?case
  proof (cases j)
    case 0
    with Cons.prems show ?thesis by (simp add: observe_def stop_def)
  next
    case (Suc j')
    have now: "\<not> stop_called env i" using Cons.prems(3) Suc by (auto dest: spec [of _ 0])
    have later: "\<forall>x<j'. \<not> stop_called env (Suc i + x)" "stop_called env (Suc i + j')"
      "j' < length rest"
      using Cons.prems Suc by (auto dest: spec [of _ "Suc x" for x])
    have ih: "\<not> stop_event s \<Longrightarrow> for_files env p (Suc i) rest s =
      (case for_files env p (Suc i) (take j' rest) s of
         (False, st', evs) \<Rightarrow> (False, st', evs)
       | (True, st', evs) \<Rightarrow> (True, stop st', evs @ [IsSet (Suc i + j') True, Log Info Stopped]))"
      for s
      using Cons.IH [OF later(3) _ later(1) later(2)] by simp
    show ?thesis
    proof (cases "path_exists env fp")
      case False
      then show ?thesis
        using Cons.prems(2) now Suc ih [of st]
        by (simp add: observe_def split: prod.splits bool.splits)
    next
      case True
      obtain ok st1 evs1 where w: "while_retries env p i fp 0 st = (ok, st1, evs1)"
        by (cases "while_retries env p i fp 0 st") auto
      then have s1: "\<not> stop_event st1"
        using while_retries_obs [OF w] Cons.prems(2) by simp
      show ?thesis
        using True Cons.prems(2) now Suc w ih [OF s1]
        by (simp add: observe_def split: prod.splits bool.splits)
    qed
  qed
qed

lemma for_files_stop_event:
  "stop_event st \<Longrightarrow> stop_event (fst (snd (for_files env p i fps st)))"
  by (cases fps) (simp_all add: observe_def stop_def)

lemma not_called_from:
  "\<not> stop_called env i \<Longrightarrow> (\<forall>y. Suc i \<le> y \<and> y \<le> x \<longrightarrow> \<not> stop_called env y) \<Longrightarrow>
   \<forall>y. i \<le> y \<and> y \<le> x \<longrightarrow> \<not> stop_called env y"
proof (intro allI impI)
  fix y
  assume a: "\<not> stop_called env i" "\<forall>y. Suc i \<le> y \<and> y \<le> x \<longrightarrow> \<not> stop_called env y"
    and y: "i \<le> y \<and> y \<le> x"
  show "\<not> stop_called env y"
  proof (cases "y = i")
    case True
    with a show ?thesis by simp
  next
    case False
    with y have "Suc i \<le> y" by simp
    with a y show ?thesis by blast
  qed
qed

lemma for_files_opens:
  "x \<in> set (opens (snd (snd (for_files env p i fps st)))) \<Longrightarrow>
   i \<le> x \<and> x < i + length fps \<and> \<not> stop_event st
   \<and> (\<forall>y. i \<le> y \<and> y \<le> x \<longrightarrow> \<not> stop_called env y)"
proof (induction fps arbitrary: i st)
  case Nil
  then show ?case by (simp add: obs_simps)
next
  case (Cons fp rest)
  show ?case
  proof (cases "stop_event (observe env i st)")
    case True
    with Cons.prems show ?thesis by (simp add: obs_simps)
  next
    case False
    then have ns: "\<not> stop_event st" "\<not> stop_called env i" "observe env i st = st"
      by (auto simp: observe_def stop_def split: if_splits)
    show ?thesis
    proof (cases "path_exists env fp")
      case False
      obtain ok st' evs where f: "for_files env p (Suc i) rest st = (ok, st', evs)"
        by (cases "for_files env p (Suc i) rest st") auto
      with Cons.prems ns False have "x \<in> set (opens evs)"
        by (simp add: obs_simps)
      with Cons.IH [of "Suc i" st] f
      have "Suc i \<le> x \<and> x < Suc i + length rest
        \<and> (\<forall>y. Suc i \<le> y \<and> y \<le> x \<longrightarrow> \<not> stop_called env y)"
        by simp
      with ns not_called_from [of env i x] show ?thesis by simp
    next
      case True
      obtain ok st1 evs1 where w: "while_retries env p i fp 0 st = (ok, st1, evs1)"
        by (cases "while_retries env p i fp 0 st") auto
      note wo = while_retries_obs [OF w]
      obtain ok' st' evs where f: "for_files env p (Suc i) rest st1 = (ok', st', evs)"
        by (cases "for_files env p (Suc i) rest st1") auto
      from Cons.prems ns True w f have "x \<in> set (opens evs1) \<or> x \<in> set (opens evs)"
        by (cases ok) (simp_all add: obs_simps)
      then show ?thesis
      proof
        assume "x \<in> set (opens evs1)"
        with wo have "x = i" by auto
        with ns show ?thesis by (auto dest: le_antisym)
      next
        assume "x \<in> set (opens evs)"
        with Cons.IH [of "Suc i" st1] f
        have "Suc i \<le> x \<and> x < Suc i + length rest
          \<and> (\<forall>y. Suc i \<le> y \<and> y \<le> x \<longrightarrow> \<not> stop_called env y)"
          by simp
        with ns not_called_from [of env i x] show ?thesis by simp
      qed
    qed
  qed
qed

subsection \<open>More runs, step by step\<close>

lemmas example_defs =
  SynchronizedExcelProcessor_def SYNC_MAX_RETRIES_def SYNC_RETRY_DELAY_def REFRESH_INTERVAL_def


lemma for_files_stop:
  "for_files env_stop three_files 0 [''a.xlsx'', ''b.xlsx'', ''c.xlsx''] entered =
    (True, \<lparr>excel = 0, dispatched = 1, stop_event = True\<rparr>,
     [IsSet 0 False, PathExists 0 ''a.xlsx'' True,
      Log Info (SyncStart ''a.xlsx''), WorkbooksOpen 0 0 0 ''a.xlsx'' True,
      Log Debug RunRefreshAll, WbRefreshAll 0 0 True, Sleep 5, WbSave 0 0 True,
      WbClose 0 0 True, Log Info (SyncDone ''a.xlsx''), IsSet 1 True,
      Log Info Stopped])"
  by (simp add: run_simps env_stop_def three_files_def entered_def example_defs)

lemma for_files_stop_first:
  "for_files env_stop three_files 0 [''a.xlsx''] entered =
    (True, \<lparr>excel = 0, dispatched = 1, stop_event = False\<rparr>,
     [IsSet 0 False, PathExists 0 ''a.xlsx'' True,
      Log Info (SyncStart ''a.xlsx''), WorkbooksOpen 0 0 0 ''a.xlsx'' True,
      Log Debug RunRefreshAll, WbRefreshAll 0 0 True, Sleep 5, WbSave 0 0 True,
      WbClose 0 0 True, Log Info (SyncDone ''a.xlsx'')])"
  by (simp add: run_simps env_stop_def three_files_def entered_def example_defs)


subsection \<open>The loop reaches every file\<close>


subsection \<open>The wait after a refresh\<close>

lemma while_retries_refresh_interval:
  "while_retries env (p\<lparr>refresh_interval := x\<rparr>) i fp r st = while_retries env p i fp r st"
proof (induction "nat (max_retries p - int r)" arbitrary: r st)
  case 0
  then have "\<not> int r < max_retries p" by simp
  then show ?case
    by (simp add: while_retries_unfold [of env p i fp r st]
        while_retries_unfold [of env "p\<lparr>refresh_interval := x\<rparr>" i fp r st])
next
  case (Suc n)
  have n: "n = nat (max_retries p - int (Suc r))" using Suc.hyps(2) by simp
  note ih = Suc.hyps(1) [OF n]
  show ?case
    by (simp add: while_retries_unfold [of env p i fp r st]
        while_retries_unfold [of env "p\<lparr>refresh_interval := x\<rparr>" i fp r st] ih)
qed

lemma for_files_refresh_interval:
  "for_files env (p\<lparr>refresh_interval := x\<rparr>) i fps st = for_files env p i fps st"
  by (induction fps arbitrary: i st)
    (simp_all add: while_retries_refresh_interval Let_def split: prod.splits bool.splits)

lemma run_refresh_interval: "run env (p\<lparr>refresh_interval := x\<rparr>) = run env p"
  by (simp add: run_def Let_def create_excel_app_def for_files_refresh_interval)

lemma waits_append:
  "settled xs \<Longrightarrow> waits_after_refresh (xs @ ys) = waits_after_refresh xs @ waits_after_refresh ys"
proof (induction xs)
  case Nil
  then show ?case by simp
next
  case (Cons e xs)
  show ?case
  proof (cases xs)
    case Nil
    with Cons.prems show ?thesis by (simp add: settled_def)
  next
    case (Cons e' xs')
    with Cons.prems Cons.IH show ?thesis
      by (cases e') (simp_all add: settled_def)
  qed
qed

lemma waits_ok_append: "waits_ok xs \<Longrightarrow> waits_ok (xs @ ys) = waits_ok ys"
  by (cases "ys = []") (auto simp: waits_ok_def waits_append settled_def)

lemma waits_ok_Nil: "waits_ok []"
  by (simp add: waits_ok_def settled_def)

lemma waits_ok_Cons: "\<not> is_refreshed e \<Longrightarrow> waits_ok (e # es) = waits_ok es"
  using waits_ok_append [of "[e]" es] by (simp add: waits_ok_def settled_def)

lemma waits_ok_try_body: "waits_ok (snd (try_body env i k fp a))"
  by (simp add: waits_ok_def settled_def try_body_def)

lemma waits_ok_quit: "waits_ok (quit_excel env a m)"
  by (simp add: waits_ok_def settled_def quit_excel_def)

lemmas waits_ok_simps =
  waits_ok_append waits_ok_Nil waits_ok_Cons waits_ok_try_body waits_ok_quit

lemma waits_ok_while:
  "while_retries env p i fp r st = (ok, st', evs) \<Longrightarrow> waits_ok evs"
proof (induction "nat (max_retries p - int r)" arbitrary: r st ok st' evs)
  case 0
  then have "while_retries env p i fp r st = (True, st, [])"
    by (subst while_retries_unfold) simp
  with 0 show ?case by (auto simp: waits_ok_Nil)
next
  case (Suc n)
  have n: "n = nat (max_retries p - int (Suc r))" using Suc.hyps(2) by simp
  note ih = Suc.hyps(1) [OF n]
  show ?case
    using Suc.prems [unfolded while_retries_unfold [of env p i fp r st]]
    by (auto simp: waits_ok_simps split: if_splits prod.splits dest: ih)
qed

lemma waits_ok_for:
  "for_files env p i fps st = (ok, st', evs) \<Longrightarrow> waits_ok evs"
proof (induction fps arbitrary: i st ok st' evs)
  case Nil
  then show ?case by (auto simp: waits_ok_Nil)
next
  case (Cons fp rest)
  obtain ok1 st1 evs1 where w: "while_retries env p i fp 0 (observe env i st) = (ok1, st1, evs1)"
    by (cases "while_retries env p i fp 0 (observe env i st)") auto
  obtain ok2 st2 evs2 where f2: "for_files env p (Suc i) rest (observe env i st) = (ok2, st2, evs2)"
    by (cases "for_files env p (Suc i) rest (observe env i st)") auto
  obtain ok3 st3 evs3 where f3: "for_files env p (Suc i) rest st1 = (ok3, st3, evs3)"
    by (cases "for_files env p (Suc i) rest st1") auto
  have "waits_ok evs1" "waits_ok evs2" "waits_ok evs3"
    using waits_ok_while [OF w] Cons.IH [OF f2] Cons.IH [OF f3] by simp_all
  then show ?case
    using Cons.prems w f2 f3
    by (auto simp: Let_def waits_ok_simps split: if_splits bool.splits)
qed

lemma waits_ok_run: "waits_ok (snd (run env p))"
proof -
  let ?st = "init_state\<lparr>dispatched := Suc (dispatched init_state), excel := dispatched init_state\<rparr>"
  obtain ok st' evs where f: "for_files env p 0 (file_paths p) ?st = (ok, st', evs)"
    by (cases "for_files env p 0 (file_paths p) ?st") auto
  have "waits_ok evs" by (rule waits_ok_for [OF f])
  then show ?thesis
    using f
    by (auto simp: run_def Let_def create_excel_app_def waits_ok_simps split: bool.splits)
qed

subsection \<open>Workbooks\<close>













subsection \<open>Runs cut short, step by step\<close>



section \<open>The claims\<close>

text \<open>
  C2. With \<open>max_attempts = 3\<close> and delay \<open>d\<close>: a coroutine that raises a caught
  exception on its first two calls and returns on the third makes the wrapper return that
  value, after exactly three calls and exactly two sleeps of \<open>d\<close>; a coroutine that raises
  a caught exception on all three calls makes the wrapper raise one \<open>ScraperError\<close>
  whose cause is the third exception and whose message holds the coroutine's name.
\<close>

theorem async_retry_three_attempts:
  "(f 0 = Inl e1 \<and> isinstance e1 E \<and> f 1 = Inl e2 \<and> isinstance e2 E \<and> f 2 = Inr v \<longrightarrow>
      async_retry 3 d E nm f =
        (Inr (Some v),
         [Await 0, LogAttemptFailed 1 nm e1, AsyncSleep d,
          Await 1, LogAttemptFailed 2 nm e2, AsyncSleep d, Await 2])
      \<and> invocations (snd (async_retry 3 d E nm f)) = 3
      \<and> delays (snd (async_retry 3 d E nm f)) = [d, d])
   \<and> (f 0 = Inl e1 \<and> isinstance e1 E \<and> f 1 = Inl e2 \<and> isinstance e2 E
        \<and> f 2 = Inl e3 \<and> isinstance e3 E \<longrightarrow>
      async_retry 3 d E nm f =
        (Inl (Exn ScraperError
               (''Operation '' @ [CHR 0x27] @ nm @ [CHR 0x27] @ '' failed after 3 attempts'')
               (Some e3)),
         [Await 0, LogAttemptFailed 1 nm e1, AsyncSleep d,
          Await 1, LogAttemptFailed 2 nm e2, AsyncSleep d,
          Await 2, LogAttemptFailed 3 nm e3, LogAllFailed 3 nm])
      \<and> invocations (snd (async_retry 3 d E nm f)) = 3
      \<and> delays (snd (async_retry 3 d E nm f)) = [d, d])"
proof (rule conjI; rule impI)
  assume h: "f 0 = Inl e1 \<and> isinstance e1 E \<and> f 1 = Inl e2 \<and> isinstance e2 E \<and> f 2 = Inr v"
  have s2: "wrapper_loop 3 d E nm f 2 = (Inr (Some v), [Await 2])"
    using h by (simp add: wrapper_loop_return)
  have s1: "wrapper_loop 3 d E nm f 1 =
      (Inr (Some v), [Await 1, LogAttemptFailed 2 nm e2, AsyncSleep d, Await 2])"
    using h s2 wrapper_loop_retry [of 1 3 f e2 E d nm] by (simp add: numeral_2_eq_2)
  show "async_retry 3 d E nm f =
        (Inr (Some v),
         [Await 0, LogAttemptFailed 1 nm e1, AsyncSleep d,
          Await 1, LogAttemptFailed 2 nm e2, AsyncSleep d, Await 2])
      \<and> invocations (snd (async_retry 3 d E nm f)) = 3
      \<and> delays (snd (async_retry 3 d E nm f)) = [d, d]"
    using h s1 wrapper_loop_retry [of 0 3 f e1 E d nm]
    by (simp add: async_retry_def invocations_def delays_def)
next
  assume h: "f 0 = Inl e1 \<and> isinstance e1 E \<and> f 1 = Inl e2 \<and> isinstance e2 E
        \<and> f 2 = Inl e3 \<and> isinstance e3 E"
  have s2: "wrapper_loop 3 d E nm f 2 =
      (Inl (Exn ScraperError (exhausted_message nm 3) (Some e3)),
       [Await 2, LogAttemptFailed 3 nm e3, LogAllFailed 3 nm])"
    using h wrapper_loop_exhausted [of 2 3 f e3 E d nm] by (simp add: eval_nat_numeral)
  have s1: "wrapper_loop 3 d E nm f 1 =
      (Inl (Exn ScraperError (exhausted_message nm 3) (Some e3)),
       [Await 1, LogAttemptFailed 2 nm e2, AsyncSleep d,
        Await 2, LogAttemptFailed 3 nm e3, LogAllFailed 3 nm])"
    using h s2 wrapper_loop_retry [of 1 3 f e2 E d nm] by (simp add: numeral_2_eq_2)
  have m: "exhausted_message nm 3 =
      ''Operation '' @ [CHR 0x27] @ nm @ [CHR 0x27] @ '' failed after 3 attempts''"
    by (simp add: exhausted_message_def str_int_def str_nat.simps digit_char_def)
  show "async_retry 3 d E nm f =
        (Inl (Exn ScraperError
               (''Operation '' @ [CHR 0x27] @ nm @ [CHR 0x27] @ '' failed after 3 attempts'')
               (Some e3)),
         [Await 0, LogAttemptFailed 1 nm e1, AsyncSleep d,
          Await 1, LogAttemptFailed 2 nm e2, AsyncSleep d,
          Await 2, LogAttemptFailed 3 nm e3, LogAllFailed 3 nm])
      \<and> invocations (snd (async_retry 3 d E nm f)) = 3
      \<and> delays (snd (async_retry 3 d E nm f)) = [d, d]"
    using h s1 m wrapper_loop_retry [of 0 3 f e1 E d nm]
    by (simp add: async_retry_def invocations_def delays_def)
qed

theorem async_retry_three_attempts_witness:
  "async_retry 3 2 [ScraperError, WebDriverException] ''fetch_data'' flaky =
     (Inr (Some 42),
      [Await 0, LogAttemptFailed 1 ''fetch_data'' (Exn WebDriverException ''session lost'' None),
       AsyncSleep 2,
       Await 1, LogAttemptFailed 2 ''fetch_data'' (Exn WebDriverException ''session lost'' None),
       AsyncSleep 2, Await 2])
   \<and> fst (async_retry 3 2 [ScraperError, WebDriverException] ''fetch_data'' broken) =
       Inl (Exn ScraperError ''Operation 'fetch_data' failed after 3 attempts''
             (Some (Exn TimeoutException ''timeout 2'' None)))
   \<and> invocations (snd (async_retry 3 2 [ScraperError, WebDriverException] ''fetch_data'' broken)) = 3
   \<and> delays (snd (async_retry 3 2 [ScraperError, WebDriverException] ''fetch_data'' broken)) = [2, 2]"
  using async_retry_three_attempts [where f = flaky
      and ?e1.0 = "Exn WebDriverException ''session lost'' None"
      and E = "[ScraperError, WebDriverException]"
      and ?e2.0 = "Exn WebDriverException ''session lost'' None" and v = 42
      and d = 2 and nm = "''fetch_data''"]
    async_retry_three_attempts [where f = broken
      and ?e1.0 = "Exn TimeoutException ''timeout 0'' None"
      and E = "[ScraperError, WebDriverException]"
      and ?e2.0 = "Exn TimeoutException ''timeout 1'' None"
      and ?e3.0 = "Exn TimeoutException ''timeout 2'' None" and d = 2 and nm = "''fetch_data''"]
  by (simp add: flaky_def broken_def isinstance_def issubclass_def str_nat.simps digit_char_def
      invocations_def delays_def)

text \<open>
  C6. When the \<open>k\<close>-th call, after \<open>k\<close> caught failures, raises an exception that is
  not an instance of the configured classes, that exception leaves the wrapper as it is:
  the coroutine has been called \<open>k + 1\<close> times, the wrapper has slept \<open>k\<close> times and
  has counted \<open>k\<close> attempts, none for this exception.
\<close>

theorem async_retry_nonretryable:
  assumes "int k < m"
    and "\<forall>j<k. \<exists>e'. f j = Inl e' \<and> isinstance e' E"
    and "f k = Inl e"
    and "\<not> isinstance e E"
  shows "fst (async_retry m d E nm f) = Inl e
    \<and> invocations (snd (async_retry m d E nm f)) = Suc k
    \<and> delays (snd (async_retry m d E nm f)) = replicate k d
    \<and> attempts_consumed (snd (async_retry m d E nm f)) = k"
  using wrapper_loop_nonretryable [of k m 0 f E e d nm] assms
  by (simp add: async_retry_def)

theorem async_retry_nonretryable_witness:
  "int 1 < 3
   \<and> cancelled 0 = Inl (Exn WebDriverException ''session lost'' None)
   \<and> isinstance (Exn WebDriverException ''session lost'' None) [ScraperError, WebDriverException]
   \<and> cancelled 1 = Inl (Exn CancelledError ''cancelled'' None)
   \<and> \<not> isinstance (Exn CancelledError ''cancelled'' None) [ScraperError, WebDriverException]
   \<and> fst (async_retry 3 2 [ScraperError, WebDriverException] ''fetch_data'' cancelled) =
       Inl (Exn CancelledError ''cancelled'' None)
   \<and> invocations (snd (async_retry 3 2 [ScraperError, WebDriverException] ''fetch_data'' cancelled)) = 2
   \<and> delays (snd (async_retry 3 2 [ScraperError, WebDriverException] ''fetch_data'' cancelled)) = [2]
   \<and> attempts_consumed (snd (async_retry 3 2 [ScraperError, WebDriverException] ''fetch_data'' cancelled)) = 1"
proof -
  have h: "int 1 < 3"
    "\<forall>j<1. \<exists>e'. cancelled j = Inl e' \<and> isinstance e' [ScraperError, WebDriverException]"
    "cancelled 1 = Inl (Exn CancelledError ''cancelled'' None)"
    "\<not> isinstance (Exn CancelledError ''cancelled'' None) [ScraperError, WebDriverException]"
    by (simp_all add: cancelled_def isinstance_def issubclass_def)
  have c: "cancelled 0 = Inl (Exn WebDriverException ''session lost'' None)"
    "isinstance (Exn WebDriverException ''session lost'' None) [ScraperError, WebDriverException]"
    by (simp_all add: cancelled_def isinstance_def issubclass_def)
  show ?thesis
    using h c async_retry_nonretryable [OF h, where d = 2 and nm = "''fetch_data''"]
    by (simp add: numeral_2_eq_2)
qed

text \<open>
  C9. With \<open>max_attempts \<le> 0\<close> the wrapper returns \<open>None\<close>: the coroutine is never
  called and nothing is raised.
\<close>

theorem async_retry_no_attempts:
  "max_attempts \<le> 0 \<Longrightarrow> async_retry max_attempts d E nm f = (Inr None, [])"
  by (simp add: async_retry_def wrapper_loop_stop)

theorem async_retry_no_attempts_witness:
  "(0::int) \<le> 0 \<and> async_retry 0 2 [Exception] ''fetch_data'' broken = (Inr None, [])
   \<and> invocations (snd (async_retry 0 2 [Exception] ''fetch_data'' broken)) = 0"
  using async_retry_no_attempts [where max_attempts = 0 and d = 2 and E = "[Exception]"
      and nm = "''fetch_data''" and f = broken]
  by (simp add: invocations_def)












text \<open>
  C4. If the event is set by the time the loop reaches file \<open>i\<close>, no
  \<open>Workbooks.Open\<close> is ever called on the files \<open>i, \<dots>, n - 1\<close>. If it is first set
  then, the loop does on the files before \<open>i\<close> exactly what it does on that shorter list,
  and then only tests the event and logs: nothing done on the first \<open>i\<close> files is undone.
  No step of the worker clears the event: once set it is set after \<open>stop\<close>, after
  \<open>observe\<close>, after the \<open>while\<close> and after the \<open>for\<close>.
\<close>

theorem stop_signal_observed:
  assumes "i < length fps" and "stop_event st \<or> (\<exists>j\<le>i. stop_called env j)"
  shows "(\<forall>x \<in> set (opens (snd (snd (for_files env p 0 fps st)))). x < i)
    \<and> (\<not> stop_event st \<and> (\<forall>j<i. \<not> stop_called env j) \<longrightarrow>
        for_files env p 0 fps st =
          (case for_files env p 0 (take i fps) st of
             (False, st', evs) \<Rightarrow> (False, st', evs)
           | (True, st', evs) \<Rightarrow> (True, stop st', evs @ [IsSet i True, Log Info Stopped])))
    \<and> stop_event (stop s)
    \<and> (stop_event s \<longrightarrow>
         stop_event (observe env k s)
         \<and> stop_event (fst (snd (while_retries env p k fp r s)))
         \<and> stop_event (fst (snd (for_files env p k fps' s))))"
proof (intro conjI ballI impI)
  fix x
  assume x: "x \<in> set (opens (snd (snd (for_files env p 0 fps st))))"
  from for_files_opens [OF x]
  have n: "\<not> stop_event st" "\<forall>y. y \<le> x \<longrightarrow> \<not> stop_called env y" by auto
  show "x < i"
  proof (rule ccontr)
    assume "\<not> x < i"
    then have "i \<le> x" by simp
    with n assms(2) show False by (meson le_trans)
  qed
next
  assume a: "\<not> stop_event st \<and> (\<forall>j<i. \<not> stop_called env j)"
  with assms(2) have "stop_called env i"
    by (metis le_neq_implies_less)
  with a assms(1) for_files_stop_split [of i fps st env 0 p, unfolded add_0]
  show "for_files env p 0 fps st =
          (case for_files env p 0 (take i fps) st of
             (False, st', evs) \<Rightarrow> (False, st', evs)
           | (True, st', evs) \<Rightarrow> (True, stop st', evs @ [IsSet i True, Log Info Stopped]))"
    by simp
next
  show "stop_event (stop s)" by (simp add: stop_def)
next
  assume "stop_event s"
  then show "stop_event (observe env k s)" by (simp add: observe_def stop_def)
next
  assume s: "stop_event s"
  obtain ok s' evs where w: "while_retries env p k fp r s = (ok, s', evs)"
    by (cases "while_retries env p k fp r s") auto
  from while_retries_obs [OF w] s w
  show "stop_event (fst (snd (while_retries env p k fp r s)))" by simp
next
  assume "stop_event s"
  then show "stop_event (fst (snd (for_files env p k fps' s)))"
    by (rule for_files_stop_event)
qed

theorem stop_signal_observed_witness:
  "1 < length [''a.xlsx'', ''b.xlsx'', ''c.xlsx''] \<and> stop_called env_stop 1
   \<and> \<not> stop_event entered \<and> \<not> stop_called env_stop 0
   \<and> opens (snd (snd (for_files env_stop three_files 0
        [''a.xlsx'', ''b.xlsx'', ''c.xlsx''] entered))) = [0]
   \<and> for_files env_stop three_files 0 [''a.xlsx'', ''b.xlsx'', ''c.xlsx''] entered =
       (True, stop (fst (snd (for_files env_stop three_files 0 [''a.xlsx''] entered))),
        snd (snd (for_files env_stop three_files 0 [''a.xlsx''] entered))
        @ [IsSet 1 True, Log Info Stopped])
   \<and> stop_event (fst (snd (for_files env_stop three_files 0
        [''a.xlsx'', ''b.xlsx'', ''c.xlsx''] entered)))"
proof -
  have h: "1 < length [''a.xlsx'', ''b.xlsx'', ''c.xlsx'']"
    "stop_event entered \<or> (\<exists>j\<le>1. stop_called env_stop j)"
    by (auto simp: env_stop_def)
  have c: "stop_called env_stop 1" "\<not> stop_event entered" "\<not> stop_called env_stop 0"
    by (simp_all add: env_stop_def entered_def)
  have e:
    "opens (snd (snd (for_files env_stop three_files 0
        [''a.xlsx'', ''b.xlsx'', ''c.xlsx''] entered))) = [0]"
    "for_files env_stop three_files 0 [''a.xlsx'', ''b.xlsx'', ''c.xlsx''] entered =
       (True, stop (fst (snd (for_files env_stop three_files 0 [''a.xlsx''] entered))),
        snd (snd (for_files env_stop three_files 0 [''a.xlsx''] entered))
        @ [IsSet 1 True, Log Info Stopped])"
    "stop_event (fst (snd (for_files env_stop three_files 0
        [''a.xlsx'', ''b.xlsx'', ''c.xlsx''] entered)))"
    by (simp_all add: for_files_stop for_files_stop_first obs_simps stop_def
        del: for_files.simps)
  show ?thesis
    using h(1) c e stop_signal_observed [OF h, where p = three_files]
    by (simp del: for_files.simps)
qed




text \<open>
  C10. The constructor stores \<open>refresh_interval\<close>, and a run does not depend on it: in
  every run, the call that follows a \<open>RefreshAll\<close> that returned is
  \<open>time.sleep(settings.REFRESH_INTERVAL)\<close>.
\<close>

theorem refresh_wait_is_the_setting:
  "run env (p\<lparr>refresh_interval := x\<rparr>) = run env p
   \<and> refresh_interval (SynchronizedExcelProcessor fps mr rd ri) = ri
   \<and> (\<forall>w \<in> set (waits_after_refresh (snd (run env p))). w = Some REFRESH_INTERVAL)"
  using waits_ok_run [of env p]
  by (simp add: run_refresh_interval SynchronizedExcelProcessor_def waits_ok_def)

theorem refresh_wait_is_the_setting_witness:
  "run env_leak (two_files\<lparr>refresh_interval := 60\<rparr>) = run env_leak two_files
   \<and> refresh_interval (SynchronizedExcelProcessor [''a.xlsx'', ''b.xlsx''] 2 2 60) = 60
   \<and> REFRESH_INTERVAL = 5
   \<and> waits_after_refresh (snd (run env_leak two_files)) = [Some 5, Some 5]
   \<and> sleeps (snd (run env_leak two_files)) = [2, 5, 5]"
proof -
  have e: "REFRESH_INTERVAL = 5"
    "waits_after_refresh (snd (run env_leak two_files)) = [Some 5, Some 5]"
    "sleeps (snd (run env_leak two_files)) = [2, 5, 5]"
    by (simp_all add: run_leak obs_simps REFRESH_INTERVAL_def)
  show ?thesis
    using e refresh_wait_is_the_setting [where env = env_leak and p = two_files and x = 60
      and fps = "[''a.xlsx'', ''b.xlsx'']" and mr = 2 and rd = 2 and ri = 60]
    by simp
qed

end
